theory Spec2Isabelle
  imports Main "HOL-Library.Multiset" "HOL-Library.Sublist"
begin

section \<open>Paths\<close>

text \<open>
  A \<^verbatim>\<open>pathlib.Path\<close> on a POSIX system: whether it is anchored at the root, and its
  name components. \<^verbatim>\<open>Path('.')\<close> is \<open>Path False []\<close> and \<^verbatim>\<open>Path('/')\<close> is \<open>Path True []\<close>.
\<close>

datatype path = Path (is_absolute: bool) (parts: "string list")

text \<open>\<^verbatim>\<open>path / file\<close> for a file name given by a directory walk (one relative component).\<close>

definition joinpath :: "path \<Rightarrow> string \<Rightarrow> path" where
  "joinpath p name = Path (is_absolute p) (parts p @ [name])"

text \<open>
  \<^verbatim>\<open>p.is_relative_to(other)\<close> is \<^verbatim>\<open>other == p or other in p.parents\<close>: purely lexical,
  same anchor and a prefix of the components.
\<close>

definition is_relative_to :: "path \<Rightarrow> path \<Rightarrow> bool" where
  "is_relative_to p other \<longleftrightarrow>
     is_absolute p = is_absolute other \<and> prefix (parts other) (parts p)"

section \<open>The file system as the script sees it\<close>

text \<open>
  The result of one file-system call: a value, \<^verbatim>\<open>FileNotFoundError\<close>, or any other
  exception the call can raise (\<^verbatim>\<open>PermissionError\<close>, a symlink loop, ...).
\<close>

datatype 'a io = Ok 'a | NotFound | Failed

datatype exn = ValueError | IndexError | FileNotFoundError | OtherError

datatype open_mode = Append | Truncate

datatype fs_event =
    Open path open_mode
  | Walk path
  | IsSymlink path
  | Resolve path
  | Stat path

text \<open>
  \<open>fs_walk d\<close> is what \<^verbatim>\<open>d.walk()\<close> yields: (directory, sub-directory names, file names).
  \<open>fs_stat p\<close> is \<^verbatim>\<open>p.stat().st_ino\<close> (it follows symlinks). A file that is listed by
  the walk and whose \<open>fs_stat\<close> is \<open>NotFound\<close> is one that vanished in between.
\<close>

record fs =
  cwd :: path
  fs_walk :: "path \<Rightarrow> (path \<times> string list \<times> string list) list"
  fs_stat :: "path \<Rightarrow> nat io"
  fs_is_symlink :: "path \<Rightarrow> bool io"
  fs_resolve :: "path \<Rightarrow> path io"
  fs_open :: "path \<Rightarrow> open_mode \<Rightarrow> unit io"

text \<open>\<^verbatim>\<open>Path.absolute()\<close>: prefixes the working directory, does not normalise or resolve.\<close>

definition absolute :: "fs \<Rightarrow> path \<Rightarrow> path" where
  "absolute fs p = (if is_absolute p then p else Path True (parts (cwd fs) @ parts p))"

section \<open>The two shared dictionaries\<close>

text \<open>
  \<^verbatim>\<open>originals_inode_map: dict[Path, int]\<close> is only written. \<^verbatim>\<open>paths_per_inode\<close> is a
  \<^verbatim>\<open>defaultdict(list)\<close>; the emitter iterates its values in key insertion order, so it is
  an association list in that order.
\<close>

record state =
  originals_inode_map :: "path \<rightharpoonup> nat"
  paths_per_inode :: "(nat \<times> path list) list"

text \<open>\<^verbatim>\<open>d[k].append(v)\<close> on a \<^verbatim>\<open>defaultdict(list)\<close>: a missing key is created with \<open>[v]\<close>.\<close>

fun dd_append :: "(nat \<times> path list) list \<Rightarrow> nat \<Rightarrow> path \<Rightarrow> (nat \<times> path list) list" where
  "dd_append [] k v = [(k, [v])]"
| "dd_append ((k', vs) # m) k v =
     (if k' = k then (k', vs @ [v]) # m else (k', vs) # dd_append m k v)"

section \<open>The per-file workers\<close>

text \<open>
  A worker returns the updated dictionaries, the file-system calls it made, and the
  exception that escapes it, if any.
\<close>

type_synonym worker_result = "state \<times> fs_event list \<times> exn option"

text \<open>Lines 9-19. Only \<^verbatim>\<open>FileNotFoundError\<close> is caught.\<close>

definition add_file_inode_to_map :: "fs \<Rightarrow> path \<Rightarrow> state \<Rightarrow> worker_result" where
  "add_file_inode_to_map fs file_path st =
     (case fs_stat fs file_path of
        Ok inode \<Rightarrow>
          (st\<lparr>originals_inode_map := (originals_inode_map st)(file_path \<mapsto> inode),
              paths_per_inode := dd_append (paths_per_inode st) inode file_path\<rparr>,
           [Stat file_path], None)
      | NotFound \<Rightarrow> (st, [Stat file_path], None)
      | Failed \<Rightarrow> (st, [Stat file_path], Some OtherError))"

text \<open>Lines 35-41: the part of the classifier after the symlink decision.\<close>

definition check_located :: "fs \<Rightarrow> path \<Rightarrow> path \<Rightarrow> state \<Rightarrow> worker_result" where
  "check_located fs originals_directory_path file_path st =
     (if is_relative_to file_path originals_directory_path then (st, [], None)
      else
        (case fs_stat fs file_path of
           Ok inode \<Rightarrow>
             ((if inode \<in> set (map fst (paths_per_inode st))
               then st\<lparr>paths_per_inode := dd_append (paths_per_inode st) inode file_path\<rparr>
               else st),
              [Stat file_path], None)
         | NotFound \<Rightarrow> (st, [Stat file_path], None)
         | Failed \<Rightarrow> (st, [Stat file_path], Some OtherError)))"

text \<open>Lines 22-41.\<close>

definition check_if_file_is_hardlink ::
  "fs \<Rightarrow> bool \<Rightarrow> path \<Rightarrow> path \<Rightarrow> state \<Rightarrow> worker_result" where
  "check_if_file_is_hardlink fs skip originals_directory_path file_path st =
     (case fs_is_symlink fs file_path of
        Ok True \<Rightarrow>
          (if skip then (st, [IsSymlink file_path], None)
           else
             (case fs_resolve fs file_path of
                Ok target \<Rightarrow>
                  (case check_located fs originals_directory_path target st of
                     (st', evs, e) \<Rightarrow> (st', IsSymlink file_path # Resolve file_path # evs, e))
              | NotFound \<Rightarrow> (st, [IsSymlink file_path, Resolve file_path], None)
              | Failed \<Rightarrow> (st, [IsSymlink file_path, Resolve file_path], Some OtherError)))
      | Ok False \<Rightarrow>
          (case check_located fs originals_directory_path file_path st of
             (st', evs, e) \<Rightarrow> (st', IsSymlink file_path # evs, e))
      | NotFound \<Rightarrow> (st, [IsSymlink file_path], None)
      | Failed \<Rightarrow> (st, [IsSymlink file_path], Some OtherError))"

section \<open>The worker pool\<close>

text \<open>
  \<^verbatim>\<open>with ThreadPoolExecutor() as executor: ... executor.submit(worker, file_path, ...)\<close>.
  Every submitted task runs once and the block waits for all of them. A task changes the
  shared dictionaries by one append (and one write under its own key), so every
  interleaving equals running the tasks one after the other in the order of their appends:
  the pool runs the tasks in the order a scheduler \<open>sched\<close> picks. The exception of a task is
  stored in its future, which nobody reads: it is dropped.
\<close>

fun run_pool :: "(path \<Rightarrow> state \<Rightarrow> worker_result) \<Rightarrow> path list \<Rightarrow> state \<Rightarrow> state \<times> fs_event list" where
  "run_pool worker [] st = (st, [])"
| "run_pool worker (p # ps) st =
     (case worker p st of
        (st', evs, _) \<Rightarrow>
          (case run_pool worker ps st' of (st'', evs') \<Rightarrow> (st'', evs @ evs')))"

text \<open>A scheduler runs exactly the submitted tasks, in some order.\<close>

definition runs_all :: "(path list \<Rightarrow> path list) \<Rightarrow> bool" where
  "runs_all sched \<longleftrightarrow> (\<forall>tasks. mset (sched tasks) = mset tasks)"

section \<open>The two walks\<close>

text \<open>Lines 87-89: the files submitted to the indexer.\<close>

definition originals_tasks :: "fs \<Rightarrow> path \<Rightarrow> path list" where
  "originals_tasks fs originals_directory_path =
     concat (map (\<lambda>(path, _, files). map (joinpath path) files)
       (fs_walk fs originals_directory_path))"

text \<open>Lines 97-101: the files submitted to the classifier.\<close>

definition root_tasks :: "fs \<Rightarrow> path list \<Rightarrow> path \<Rightarrow> path list" where
  "root_tasks fs skip_dirs root_directory_path =
     concat (map (\<lambda>(path, _, files).
         if list_ex (\<lambda>skip_dir. is_relative_to path skip_dir) skip_dirs then []
         else map (joinpath path) files)
       (fs_walk fs root_directory_path))"

section \<open>The emitter\<close>

text \<open>
  Lines 110-116, the body of the loop: the lines printed for one group. \<^verbatim>\<open>print\<close> is taken
  to succeed: an error of the output file itself (an encoding the sink refuses, a full
  disk) is not part of the model.
\<close>

definition emit_group :: "int \<Rightarrow> bool \<Rightarrow> path list \<Rightarrow> path list \<times> exn option" where
  "emit_group n include_originals paths =
     (case paths of
        [] \<Rightarrow> ([], Some IndexError)
      | original_file # _ \<Rightarrow>
          (if int (length paths) - 1 \<ge> n
           then ((if include_originals then [original_file] else [])
                   @ map (\<lambda>i. paths ! i) [1..<length paths], None)
           else ([], None)))"

text \<open>Line 109: the loop over \<^verbatim>\<open>paths_per_inode.values()\<close>; an exception ends it.\<close>

fun emitter :: "int \<Rightarrow> bool \<Rightarrow> path list list \<Rightarrow> path list \<times> exn option" where
  "emitter n include_originals [] = ([], None)"
| "emitter n include_originals (paths # rest) =
     (case emit_group n include_originals paths of
        (out, Some e) \<Rightarrow> (out, Some e)
      | (out, None) \<Rightarrow>
          (case emitter n include_originals rest of (out', e) \<Rightarrow> (out @ out', e)))"

section \<open>The command\<close>

record args =
  root_directory :: path
  originals_directory :: path
  min_links :: int
  to_file :: "path option"
  append_to_file :: bool
  skip_symlinks :: bool
  include_originals_in_output :: bool
  skip_directories :: "path list"

text \<open>The defaults of the signature, lines 48-53.\<close>

definition default_args :: "path \<Rightarrow> path \<Rightarrow> args" where
  "default_args root originals =
     \<lparr>root_directory = root, originals_directory = originals, min_links = 1,
      to_file = None, append_to_file = True, skip_symlinks = True,
      include_originals_in_output = False, skip_directories = []\<rparr>"

text \<open>
  What a run does: the exception it ends with, the lines printed to the output file, and
  the file-system calls made.
\<close>

record outcome =
  raised :: "exn option"
  printed :: "path list"
  accesses :: "fs_event list"

text \<open>Lines 75-81: \<open>None\<close> is \<^verbatim>\<open>stdout\<close>.\<close>

definition open_output :: "fs \<Rightarrow> args \<Rightarrow> fs_event list \<times> exn option" where
  "open_output fs a =
     (case to_file a of
        None \<Rightarrow> ([], None)
      | Some f \<Rightarrow>
          (let mode = (if append_to_file a then Append else Truncate) in
           case fs_open fs f mode of
             Ok _ \<Rightarrow> ([Open f mode], None)
           | NotFound \<Rightarrow> ([Open f mode], Some FileNotFoundError)
           | Failed \<Rightarrow> ([Open f mode], Some OtherError)))"

definition empty_state :: state where
  "empty_state = \<lparr>originals_inode_map = Map.empty, paths_per_inode = []\<rparr>"

text \<open>Lines 82-95: the indexer phase.\<close>

definition index_phase :: "fs \<Rightarrow> (path list \<Rightarrow> path list) \<Rightarrow> args \<Rightarrow> state \<times> fs_event list" where
  "index_phase fs sched1 a =
     (let originals_directory_path = absolute fs (originals_directory a) in
      case run_pool (add_file_inode_to_map fs)
             (sched1 (originals_tasks fs originals_directory_path)) empty_state of
        (st, evs) \<Rightarrow> (st, Walk originals_directory_path # evs))"

text \<open>Lines 96-108: the classifier phase, started when the indexer pool has drained.\<close>

definition classify_phase ::
  "fs \<Rightarrow> (path list \<Rightarrow> path list) \<Rightarrow> args \<Rightarrow> state \<Rightarrow> state \<times> fs_event list" where
  "classify_phase fs sched2 a st =
     (let root_directory_path = absolute fs (root_directory a);
          originals_directory_path = absolute fs (originals_directory a) in
      case run_pool
             (check_if_file_is_hardlink fs (skip_symlinks a) originals_directory_path)
             (sched2 (root_tasks fs (skip_directories a) root_directory_path)) st of
        (st', evs) \<Rightarrow> (st', Walk root_directory_path # evs))"

definition scan ::
  "fs \<Rightarrow> (path list \<Rightarrow> path list) \<Rightarrow> (path list \<Rightarrow> path list) \<Rightarrow> args \<Rightarrow> state \<times> fs_event list" where
  "scan fs sched1 sched2 a =
     (case index_phase fs sched1 a of
        (st1, evs1) \<Rightarrow>
          (case classify_phase fs sched2 a st1 of (st2, evs2) \<Rightarrow> (st2, evs1 @ evs2)))"

text \<open>Lines 44-116.\<close>

definition find_hardlinks ::
  "fs \<Rightarrow> (path list \<Rightarrow> path list) \<Rightarrow> (path list \<Rightarrow> path list) \<Rightarrow> args \<Rightarrow> outcome" where
  "find_hardlinks fs sched1 sched2 a =
     (if min_links a < 1 then \<lparr>raised = Some ValueError, printed = [], accesses = []\<rparr>
      else
        (case open_output fs a of
           (evs0, Some e) \<Rightarrow> \<lparr>raised = Some e, printed = [], accesses = evs0\<rparr>
         | (evs0, None) \<Rightarrow>
             (case scan fs sched1 sched2 a of
                (st, evs) \<Rightarrow>
                  (case emitter (min_links a) (include_originals_in_output a)
                          (map snd (paths_per_inode st)) of
                     (out, e) \<Rightarrow> \<lparr>raised = e, printed = out, accesses = evs0 @ evs\<rparr>))))"

section \<open>Concrete file systems\<close>

text \<open>
  A file system given by three tables: what each walk yields, the inode behind each path
  (a path without an entry does not exist), and the symlinks with their resolved targets.
\<close>

definition table_fs ::
  "(path \<times> (path \<times> string list \<times> string list) list) list \<Rightarrow> (path \<times> nat) list \<Rightarrow>
   (path \<times> path) list \<Rightarrow> fs" where
  "table_fs walks inodes links =
     \<lparr>cwd = Path True [],
      fs_walk = (\<lambda>d. case map_of walks d of Some w \<Rightarrow> w | None \<Rightarrow> []),
      fs_stat = (\<lambda>p. case map_of inodes p of Some i \<Rightarrow> Ok i | None \<Rightarrow> NotFound),
      fs_is_symlink = (\<lambda>p. Ok (p \<in> set (map fst links))),
      fs_resolve = (\<lambda>p. case map_of links p of Some t \<Rightarrow> Ok t | None \<Rightarrow> Ok p),
      fs_open = (\<lambda>p m. Ok ())\<rparr>"

definition dir_o :: path where "dir_o = Path True [''o'']"
definition dir_r :: path where "dir_r = Path True [''r'']"
definition file_A :: path where "file_A = Path True [''o'', ''A'']"
definition file_B :: path where "file_B = Path True [''o'', ''B'']"
definition file_A2 :: path where "file_A2 = Path True [''r'', ''A2'']"
definition file_A3 :: path where "file_A3 = Path True [''r'', ''A3'']"
definition file_C :: path where "file_C = Path True [''r'', ''C'']"
definition link_L :: path where "link_L = Path True [''r'', ''L'']"

text \<open>
  The example of the specification: originals tree \<^verbatim>\<open>/o\<close> with \<^verbatim>\<open>A\<close> (inode 100) and
  \<^verbatim>\<open>B\<close> (inode 200); root tree \<^verbatim>\<open>/r\<close> with \<^verbatim>\<open>A2\<close>, \<^verbatim>\<open>A3\<close> (inode 100) and
  \<^verbatim>\<open>C\<close> (inode 300). No symlinks.
\<close>

definition example_fs :: fs where
  "example_fs =
     table_fs
       [(dir_o, [(dir_o, [], [''A'', ''B''])]), (dir_r, [(dir_r, [], [''A2'', ''A3'', ''C''])])]
       [(file_A, 100), (file_B, 200), (file_A2, 100), (file_A3, 100), (file_C, 300)]
       []"

definition example_args :: args where
  "example_args = default_args dir_r dir_o"

text \<open>The same trees when \<^verbatim>\<open>B\<close> and \<^verbatim>\<open>C\<close> are deleted after the walk has listed them.\<close>

definition vanished_fs :: fs where
  "vanished_fs =
     table_fs
       [(dir_o, [(dir_o, [], [''A'', ''B''])]), (dir_r, [(dir_r, [], [''A2'', ''A3'', ''C''])])]
       [(file_A, 100), (file_A2, 100), (file_A3, 100)]
       []"

text \<open>
  Two names of one file inside the originals tree (\<^verbatim>\<open>/o/A\<close> and \<^verbatim>\<open>/o/A1\<close>), and a symlink
  \<^verbatim>\<open>/r/L\<close> in the root tree to a third name \<^verbatim>\<open>/x/F\<close> that lies in neither tree. Symlinks are
  resolved.
\<close>

definition file_A1 :: path where "file_A1 = Path True [''o'', ''A1'']"
definition file_F :: path where "file_F = Path True [''x'', ''F'']"

definition aliased_fs :: fs where
  "aliased_fs =
     table_fs
       [(dir_o, [(dir_o, [], [''A'', ''A1''])]), (dir_r, [(dir_r, [], [''L''])])]
       [(file_A, 100), (file_A1, 100), (file_F, 100), (link_L, 100)]
       [(link_L, file_F)]"

definition aliased_args :: args where
  "aliased_args = (default_args dir_r dir_o)\<lparr>skip_symlinks := False\<rparr>"

text \<open>
  The originals directory \<^verbatim>\<open>/data/o\<close>, holding one file \<^verbatim>\<open>A\<close> (inode 100), given on
  the command line as \<^verbatim>\<open>/data/work/../o\<close>: the walk then lists the file as
  \<^verbatim>\<open>/data/work/../o/A\<close>. A symlink \<^verbatim>\<open>/r/L\<close> points to the file; \<^verbatim>\<open>resolve()\<close> gives its
  normalised path \<^verbatim>\<open>/data/o/A\<close>. A walk of \<^verbatim>\<open>/data\<close> lists the file as \<^verbatim>\<open>/data/o/A\<close> too.
\<close>

definition dir_data :: path where "dir_data = Path True [''data'']"
definition dir_data_o :: path where "dir_data_o = Path True [''data'', ''o'']"
definition dir_data_work :: path where "dir_data_work = Path True [''data'', ''work'']"
definition dir_dots_o :: path where "dir_dots_o = Path True [''data'', ''work'', ''..'', ''o'']"
definition file_dots_A :: path where
  "file_dots_A = Path True [''data'', ''work'', ''..'', ''o'', ''A'']"
definition file_data_A :: path where "file_data_A = Path True [''data'', ''o'', ''A'']"

definition dots_fs :: fs where
  "dots_fs =
     table_fs
       [(dir_dots_o, [(dir_dots_o, [], [''A''])]),
        (dir_r, [(dir_r, [], [''L''])]),
        (dir_data,
           [(dir_data, [''o'', ''work''], []), (dir_data_o, [], [''A'']), (dir_data_work, [], [])])]
       [(file_dots_A, 100), (file_data_A, 100), (link_L, 100)]
       [(link_L, file_data_A)]"

text \<open>The symlink is followed from the root \<^verbatim>\<open>/r\<close>.\<close>

definition dots_args :: args where
  "dots_args = (default_args dir_r dir_dots_o)\<lparr>skip_symlinks := False\<rparr>"

text \<open>The default options, with the root \<^verbatim>\<open>/data\<close> that contains the originals directory.\<close>

definition dots_default_args :: args where
  "dots_default_args = default_args dir_data dir_dots_o"

text \<open>
  The originals directory \<^verbatim>\<open>/r/o\<close> inside the root \<^verbatim>\<open>/r\<close>, holding a file \<^verbatim>\<open>A\<close> and a
  symlink \<^verbatim>\<open>S\<close> to it. Default options: symlinks are skipped.
\<close>

definition dir_ro :: path where "dir_ro = Path True [''r'', ''o'']"
definition file_roA :: path where "file_roA = Path True [''r'', ''o'', ''A'']"
definition link_roS :: path where "link_roS = Path True [''r'', ''o'', ''S'']"

definition nested_fs :: fs where
  "nested_fs =
     table_fs
       [(dir_ro, [(dir_ro, [], [''A'', ''S''])]),
        (dir_r, [(dir_r, [''o''], []), (dir_ro, [], [''A'', ''S''])])]
       [(file_roA, 100), (link_roS, 100)]
       [(link_roS, file_roA)]"

definition nested_args :: args where
  "nested_args = default_args dir_r dir_ro"

text \<open>
  A hardlink \<^verbatim>\<open>/r/skip/F\<close> of \<^verbatim>\<open>/o/A\<close> inside the skipped directory \<^verbatim>\<open>/r/skip\<close>, and a
  symlink \<^verbatim>\<open>/r/L\<close> to it from outside that directory. Symlinks are resolved.
\<close>

definition dir_skip :: path where "dir_skip = Path True [''r'', ''skip'']"
definition file_skipF :: path where "file_skipF = Path True [''r'', ''skip'', ''F'']"

definition skipdir_fs :: fs where
  "skipdir_fs =
     table_fs
       [(dir_o, [(dir_o, [], [''A''])]),
        (dir_r, [(dir_r, [''skip''], [''L'']), (dir_skip, [], [''F''])])]
       [(file_A, 100), (file_skipF, 100), (link_L, 100)]
       [(link_L, file_skipF)]"

definition skipdir_args :: args where
  "skipdir_args =
     (default_args dir_r dir_o)\<lparr>skip_symlinks := False, skip_directories := [dir_skip]\<rparr>"

text \<open>
  The same trees and default options, with the skip-directory given relative to the working
  directory \<^verbatim>\<open>/\<close>, as \<^verbatim>\<open>r/skip\<close>.
\<close>

definition relative_skip_args :: args where
  "relative_skip_args =
     (default_args dir_r dir_o)\<lparr>skip_directories := [Path False [''r'', ''skip'']]\<rparr>"

section \<open>How the classifier phase changes the groups\<close>

text \<open>
  \<open>grown Q m m'\<close>: \<open>m'\<close> has the keys of \<open>m\<close> in the same order, and every group of \<open>m'\<close> is
  the group of \<open>m\<close> followed by paths \<open>q\<close> with \<open>Q k q\<close>.
\<close>

definition grown ::
  "(nat \<Rightarrow> path \<Rightarrow> bool) \<Rightarrow> (nat \<times> path list) list \<Rightarrow> (nat \<times> path list) list \<Rightarrow> bool" where
  "grown Q m m' \<longleftrightarrow>
     list_all2 (\<lambda>(k, g) (k', g'). k' = k \<and> (\<exists>found. g' = g @ found \<and> (\<forall>q \<in> set found. Q k q)))
       m m'"

text \<open>
  What the classifier can append to the group of inode \<open>k\<close> for the tasks \<open>tasks\<close>: a path
  outside the originals directory with that inode, which is a task that is no symlink, or
  the resolved target of a task that is one when symlinks are not skipped.
\<close>

definition discovered :: "fs \<Rightarrow> bool \<Rightarrow> path \<Rightarrow> path list \<Rightarrow> nat \<Rightarrow> path \<Rightarrow> bool" where
  "discovered fs skip orig tasks k q \<longleftrightarrow>
     fs_stat fs q = Ok k \<and> \<not> is_relative_to q orig \<and>
     (\<exists>t \<in> set tasks.
        (fs_is_symlink fs t = Ok False \<and> q = t) \<or>
        (\<not> skip \<and> fs_is_symlink fs t = Ok True \<and> fs_resolve fs t = Ok q))"

lemmas path_defs =
  dir_o_def dir_r_def file_A_def file_B_def file_A2_def file_A3_def file_C_def link_L_def
  file_A1_def file_F_def dir_ro_def file_roA_def link_roS_def dir_skip_def file_skipF_def
  dir_data_def dir_data_o_def dir_data_work_def dir_dots_o_def file_dots_A_def file_data_A_def

lemmas fs_defs =
  table_fs_def example_fs_def vanished_fs_def aliased_fs_def dots_fs_def nested_fs_def
  skipdir_fs_def

lemmas args_defs =
  default_args_def example_args_def aliased_args_def dots_args_def dots_default_args_def
  nested_args_def skipdir_args_def relative_skip_args_def

lemmas run_defs =
  find_hardlinks_def open_output_def scan_def index_phase_def classify_phase_def
  originals_tasks_def root_tasks_def absolute_def joinpath_def empty_state_def
  add_file_inode_to_map_def check_if_file_is_hardlink_def check_located_def
  is_relative_to_def emit_group_def

section \<open>The dictionary\<close>

lemma dd_append_keys:
  "map fst (dd_append m k v) = (if k \<in> set (map fst m) then map fst m else map fst m @ [k])"
  by (induction m k v rule: dd_append.induct) auto

lemma dd_append_pred:
  assumes "\<forall>(k', g) \<in> set m. P k' g" and "P k [v]" and "\<And>g. P k g \<Longrightarrow> P k (g @ [v])"
  shows "\<forall>(k', g) \<in> set (dd_append m k v). P k' g"
  using assms by (induction m k v rule: dd_append.induct) auto

lemma grown_refl: "grown Q m m"
  unfolding grown_def by (rule list_all2_refl) auto

lemma grown_trans: "grown Q m m' \<Longrightarrow> grown Q m' m'' \<Longrightarrow> grown Q m m''"
  unfolding grown_def
  apply (erule list_all2_trans[rotated])
   apply assumption
  apply auto
  done

lemma grown_mono: "grown Q m m' \<Longrightarrow> (\<And>k q. Q k q \<Longrightarrow> Q' k q) \<Longrightarrow> grown Q' m m'"
  unfolding grown_def by (erule list_all2_mono) auto

lemma grown_dd_append:
  "k \<in> set (map fst m) \<Longrightarrow> Q k v \<Longrightarrow> grown Q m (dd_append m k v)"
proof (induction m k v rule: dd_append.induct)
  case (1 k v)
  then show ?case by simp
next
  case (2 k' vs m k v)
  show ?case
  proof (cases "k' = k")
    case True
    have "list_all2
        (\<lambda>(k, g) (k', g'). k' = k \<and> (\<exists>found. g' = g @ found \<and> (\<forall>q \<in> set found. Q k q))) m m"
      by (rule list_all2_refl) auto
    with True 2 show ?thesis by (auto simp: grown_def)
  next
    case False
    with 2 show ?thesis by (auto simp: grown_def)
  qed
qed

lemma grown_keys: "grown Q m m' \<Longrightarrow> map fst m' = map fst m"
  unfolding grown_def by (induction m m' rule: list_all2_induct) auto

lemma grown_entry:
  assumes "grown Q m m'" and "(k, g') \<in> set m'"
  shows "\<exists>g found. (k, g) \<in> set m \<and> g' = g @ found \<and> (\<forall>q \<in> set found. Q k q)"
  using assms unfolding grown_def
  by (induction m m' rule: list_all2_induct) auto

section \<open>The pools\<close>

lemma run_pool_fst_Cons:
  "fst (run_pool worker (p # ps) st) = fst (run_pool worker ps (fst (worker p st)))"
  by (simp split: prod.splits)

lemma run_pool_fst_append:
  "fst (run_pool worker (ps @ qs) st) = fst (run_pool worker qs (fst (run_pool worker ps st)))"
proof (induction ps arbitrary: st)
  case Nil
  show ?case by simp
next
  case (Cons p ps)
  show ?case
    using Cons.IH[of "fst (worker p st)"] by (simp only: run_pool_fst_Cons append_Cons)
qed

text \<open>A task that leaves the dictionaries as they are can be taken out of the run.\<close>

lemma run_pool_drop_task:
  assumes "\<And>st. fst (worker p st) = st"
  shows "fst (run_pool worker (before @ p # after) st) = fst (run_pool worker (before @ after) st)"
  by (simp only: run_pool_fst_append run_pool_fst_Cons assms)

lemma check_located_grown:
  "grown (\<lambda>k q. fs_stat fs q = Ok k \<and> \<not> is_relative_to q orig \<and> q = p)
     (paths_per_inode st) (paths_per_inode (fst (check_located fs orig p st)))"
proof (cases "fs_stat fs p")
  case (Ok i)
  show ?thesis
  proof (cases "\<not> is_relative_to p orig \<and> i \<in> set (map fst (paths_per_inode st))")
    case True
    then have "grown (\<lambda>k q. fs_stat fs q = Ok k \<and> \<not> is_relative_to q orig \<and> q = p)
        (paths_per_inode st) (dd_append (paths_per_inode st) i p)"
      using Ok by (intro grown_dd_append) simp_all
    then show ?thesis using True Ok by (simp add: check_located_def)
  next
    case False
    then show ?thesis using Ok by (auto simp: check_located_def grown_refl)
  qed
qed (simp_all add: check_located_def grown_refl)

lemma classifier_grown:
  "grown (discovered fs skip orig [t])
     (paths_per_inode st) (paths_per_inode (fst (check_if_file_is_hardlink fs skip orig t st)))"
proof -
  have a: "fs_is_symlink fs t = Ok False \<Longrightarrow>
      grown (discovered fs skip orig [t]) (paths_per_inode st)
        (paths_per_inode (fst (check_located fs orig t st)))"
    by (rule grown_mono[OF check_located_grown]) (simp add: discovered_def)
  have b: "\<And>q. fs_is_symlink fs t = Ok True \<Longrightarrow> \<not> skip \<Longrightarrow> fs_resolve fs t = Ok q \<Longrightarrow>
      grown (discovered fs skip orig [t]) (paths_per_inode st)
        (paths_per_inode (fst (check_located fs orig q st)))"
    by (rule grown_mono[OF check_located_grown]) (simp add: discovered_def)
  show ?thesis
    using a b
    by (auto simp: check_if_file_is_hardlink_def grown_refl
        split: io.splits bool.splits prod.splits)
qed

lemma discovered_mono:
  "discovered fs skip orig ts k q \<Longrightarrow> set ts \<subseteq> set ts' \<Longrightarrow> discovered fs skip orig ts' k q"
  unfolding discovered_def by blast

lemma classify_pool_grown:
  "grown (discovered fs skip orig ts)
     (paths_per_inode st)
     (paths_per_inode (fst (run_pool (check_if_file_is_hardlink fs skip orig) ts st)))"
proof (induction ts arbitrary: st)
  case Nil
  show ?case by (simp add: grown_refl)
next
  case (Cons t ts)
  let ?st' = "fst (check_if_file_is_hardlink fs skip orig t st)"
  have 1: "grown (discovered fs skip orig (t # ts)) (paths_per_inode st) (paths_per_inode ?st')"
    by (rule grown_mono[OF classifier_grown]) (erule discovered_mono, simp)
  have 2: "grown (discovered fs skip orig (t # ts)) (paths_per_inode ?st')
      (paths_per_inode (fst (run_pool (check_if_file_is_hardlink fs skip orig) ts ?st')))"
    by (rule grown_mono[OF Cons.IH]) (erule discovered_mono, auto)
  show ?case
    using grown_trans[OF 1 2] by (simp only: run_pool_fst_Cons)
qed

lemma index_pool_groups:
  assumes "\<forall>(k, g) \<in> set (paths_per_inode st).
             g \<noteq> [] \<and> (\<forall>p \<in> set g. p \<in> S \<and> fs_stat fs p = Ok k)"
    and "set ts \<subseteq> S"
  shows "\<forall>(k, g) \<in> set (paths_per_inode (fst (run_pool (add_file_inode_to_map fs) ts st))).
           g \<noteq> [] \<and> (\<forall>p \<in> set g. p \<in> S \<and> fs_stat fs p = Ok k)"
  using assms
proof (induction ts arbitrary: st)
  case Nil
  then show ?case by simp
next
  case (Cons t ts)
  let ?st' = "fst (add_file_inode_to_map fs t st)"
  have 1: "\<forall>(k, g) \<in> set (paths_per_inode ?st').
             g \<noteq> [] \<and> (\<forall>p \<in> set g. p \<in> S \<and> fs_stat fs p = Ok k)"
  proof (cases "fs_stat fs t")
    case (Ok i)
    have "\<forall>(k, g) \<in> set (dd_append (paths_per_inode st) i t).
            g \<noteq> [] \<and> (\<forall>p \<in> set g. p \<in> S \<and> fs_stat fs p = Ok k)"
      using Cons.prems Ok by (intro dd_append_pred) auto
    then show ?thesis using Ok by (simp add: add_file_inode_to_map_def)
  next
    case NotFound
    then show ?thesis using Cons.prems by (simp add: add_file_inode_to_map_def)
  next
    case Failed
    then show ?thesis using Cons.prems by (simp add: add_file_inode_to_map_def)
  qed
  have 2: "set ts \<subseteq> S" using Cons.prems by simp
  show ?case
    using Cons.IH[OF 1 2] by (simp only: run_pool_fst_Cons)
qed

section \<open>The two phases\<close>

lemma index_phase_fst:
  "fst (index_phase fs sched1 a) =
   fst (run_pool (add_file_inode_to_map fs)
          (sched1 (originals_tasks fs (absolute fs (originals_directory a)))) empty_state)"
  by (simp add: index_phase_def Let_def split: prod.splits)

lemma classify_phase_fst:
  "fst (classify_phase fs sched2 a st) =
   fst (run_pool
          (check_if_file_is_hardlink fs (skip_symlinks a) (absolute fs (originals_directory a)))
          (sched2 (root_tasks fs (skip_directories a) (absolute fs (root_directory a)))) st)"
  by (simp add: classify_phase_def Let_def split: prod.splits)

lemma scan_fst:
  "fst (scan fs sched1 sched2 a) =
   fst (classify_phase fs sched2 a (fst (index_phase fs sched1 a)))"
  by (simp add: scan_def split: prod.splits)

lemma runs_all_subset: "runs_all sched \<Longrightarrow> set (sched tasks) \<subseteq> set tasks"
  by (metis runs_all_def set_mset_mset subset_refl)

lemma index_phase_groups:
  assumes "runs_all sched1" and "(k, g) \<in> set (paths_per_inode (fst (index_phase fs sched1 a)))"
  shows "g \<noteq> [] \<and> (\<forall>p \<in> set g.
           p \<in> set (originals_tasks fs (absolute fs (originals_directory a))) \<and>
           fs_stat fs p = Ok k)"
proof -
  let ?ts = "originals_tasks fs (absolute fs (originals_directory a))"
  have "\<forall>(k, g) \<in> set (paths_per_inode
            (fst (run_pool (add_file_inode_to_map fs) (sched1 ?ts) empty_state))).
      g \<noteq> [] \<and> (\<forall>p \<in> set g. p \<in> set ?ts \<and> fs_stat fs p = Ok k)"
    using runs_all_subset[OF assms(1)]
    by (intro index_pool_groups) (simp_all add: empty_state_def)
  then show ?thesis
    using assms(2) unfolding index_phase_fst by blast
qed

lemma classify_phase_grown:
  assumes "runs_all sched2"
  shows "grown (discovered fs (skip_symlinks a) (absolute fs (originals_directory a))
            (root_tasks fs (skip_directories a) (absolute fs (root_directory a))))
          (paths_per_inode st) (paths_per_inode (fst (classify_phase fs sched2 a st)))"
proof -
  let ?ts = "root_tasks fs (skip_directories a) (absolute fs (root_directory a))"
  have "grown (discovered fs (skip_symlinks a) (absolute fs (originals_directory a)) ?ts)
      (paths_per_inode st)
      (paths_per_inode (fst (run_pool
         (check_if_file_is_hardlink fs (skip_symlinks a) (absolute fs (originals_directory a)))
         (sched2 ?ts) st)))"
    by (rule grown_mono[OF classify_pool_grown])
      (erule discovered_mono, rule runs_all_subset[OF assms])
  then show ?thesis
    unfolding classify_phase_fst .
qed

text \<open>
  The shape of every group when the emitter starts: the group the indexer built, then what
  the classifier found.
\<close>

lemma scan_groups:
  assumes "runs_all sched1" and "runs_all sched2"
    and "(k, g) \<in> set (paths_per_inode (fst (scan fs sched1 sched2 a)))"
  shows "\<exists>origs found. g = origs @ found \<and> origs \<noteq> [] \<and>
           (k, origs) \<in> set (paths_per_inode (fst (index_phase fs sched1 a))) \<and>
           (\<forall>p \<in> set origs.
              p \<in> set (originals_tasks fs (absolute fs (originals_directory a))) \<and>
              fs_stat fs p = Ok k) \<and>
           (\<forall>q \<in> set found.
              discovered fs (skip_symlinks a) (absolute fs (originals_directory a))
                (root_tasks fs (skip_directories a) (absolute fs (root_directory a))) k q)"
proof -
  from grown_entry[OF classify_phase_grown[OF assms(2)] assms(3)[unfolded scan_fst]]
  obtain origs found where
    1: "(k, origs) \<in> set (paths_per_inode (fst (index_phase fs sched1 a)))" and
    2: "g = origs @ found" and
    3: "\<forall>q \<in> set found.
          discovered fs (skip_symlinks a) (absolute fs (originals_directory a))
            (root_tasks fs (skip_directories a) (absolute fs (root_directory a))) k q"
    by blast
  from index_phase_groups[OF assms(1) 1] 1 2 3 show ?thesis by blast
qed

section \<open>The emitter loop\<close>

lemma nth_from_one: "map (\<lambda>i. (x # xs) ! i) [1..<length (x # xs)] = xs"
proof -
  have "[1..<length (x # xs)] = map Suc [0..<length xs]"
    by (simp add: map_Suc_upt)
  then have "map (\<lambda>i. (x # xs) ! i) [1..<length (x # xs)] = map (\<lambda>i. xs ! i) [0..<length xs]"
    by (simp add: comp_def)
  then show ?thesis by (simp add: map_nth)
qed

lemma emit_group_Cons:
  "emit_group n include_originals (original_file # rest) =
     (if n \<le> int (length rest)
      then ((if include_originals then [original_file] else []) @ rest, None)
      else ([], None))"
  unfolding emit_group_def list.case nth_from_one by simp

lemma emit_group_Nil: "emit_group n include_originals [] = ([], Some IndexError)"
  by (simp add: emit_group_def)

lemma emit_group_ok: "g \<noteq> [] \<Longrightarrow> snd (emit_group n include_originals g) = None"
  by (cases g) (simp_all add: emit_group_Cons)

lemma emit_group_subset: "set (fst (emit_group n include_originals g)) \<subseteq> set g"
  by (cases g) (auto simp: emit_group_Cons emit_group_Nil)

lemma emitter_blocks:
  "\<forall>g \<in> set groups. g \<noteq> [] \<Longrightarrow>
   emitter n include_originals groups =
     (concat (map (\<lambda>g. fst (emit_group n include_originals g)) groups), None)"
proof (induction groups)
  case Nil
  show ?case by simp
next
  case (Cons g groups)
  then have "snd (emit_group n include_originals g) = None"
    by (simp add: emit_group_ok)
  then obtain out where "emit_group n include_originals g = (out, None)"
    by (cases "emit_group n include_originals g") auto
  then show ?case using Cons by simp
qed

lemma emitter_exn: "snd (emitter n include_originals groups) \<in> {None, Some IndexError}"
proof (induction groups)
  case Nil
  show ?case by simp
next
  case (Cons g groups)
  show ?case
  proof (cases g)
    case Nil
    then show ?thesis by (simp add: emit_group_Nil)
  next
    case (Cons original_file rest)
    then show ?thesis using Cons.IH
      by (auto simp: emit_group_Cons split: prod.splits)
  qed
qed

lemma emitter_subset: "set (fst (emitter n include_originals groups)) \<subseteq> \<Union> (set ` set groups)"
proof (induction groups)
  case Nil
  show ?case by simp
next
  case (Cons g groups)
  show ?case
    using Cons.IH emit_group_subset[of n include_originals g]
    by (auto split: prod.splits option.splits)
qed

section \<open>The command as a whole\<close>

lemma open_output_exn: "snd (open_output fs a) \<in> {None, Some FileNotFoundError, Some OtherError}"
  by (simp add: open_output_def Let_def split: option.splits io.splits)

lemma find_hardlinks_raised:
  "raised (find_hardlinks fs sched1 sched2 a) =
     (if min_links a < 1 then Some ValueError
      else if snd (open_output fs a) \<noteq> None then snd (open_output fs a)
      else snd (emitter (min_links a) (include_originals_in_output a)
                  (map snd (paths_per_inode (fst (scan fs sched1 sched2 a))))))"
  by (auto simp: find_hardlinks_def split: prod.splits option.splits)

lemma find_hardlinks_printed:
  "printed (find_hardlinks fs sched1 sched2 a) =
     (if min_links a < 1 \<or> snd (open_output fs a) \<noteq> None then []
      else fst (emitter (min_links a) (include_originals_in_output a)
                  (map snd (paths_per_inode (fst (scan fs sched1 sched2 a))))))"
  by (auto simp: find_hardlinks_def split: prod.splits option.splits)

text \<open>Every printed line is a path of some group.\<close>

lemma printed_in_group:
  assumes "l \<in> set (printed (find_hardlinks fs sched1 sched2 a))"
  shows "\<exists>k g. (k, g) \<in> set (paths_per_inode (fst (scan fs sched1 sched2 a))) \<and> l \<in> set g"
proof -
  let ?groups = "map snd (paths_per_inode (fst (scan fs sched1 sched2 a)))"
  have "l \<in> set (fst (emitter (min_links a) (include_originals_in_output a) ?groups))"
    using assms by (simp add: find_hardlinks_printed split: if_splits)
  then have "l \<in> \<Union> (set ` set ?groups)"
    using emitter_subset by blast
  then obtain g where "g \<in> set ?groups" and "l \<in> set g"
    by blast
  then obtain k where "(k, g) \<in> set (paths_per_inode (fst (scan fs sched1 sched2 a)))"
    by auto
  with \<open>l \<in> set g\<close> show ?thesis by blast
qed

lemma index_phase_nonempty:
  "(k, g) \<in> set (paths_per_inode (fst (index_phase fs sched1 a))) \<Longrightarrow> g \<noteq> []"
proof -
  have "\<forall>(k, g) \<in> set (paths_per_inode (fst (run_pool (add_file_inode_to_map fs)
            (sched1 (originals_tasks fs (absolute fs (originals_directory a)))) empty_state))).
      g \<noteq> [] \<and> (\<forall>p \<in> set g. p \<in> UNIV \<and> fs_stat fs p = Ok k)"
    by (intro index_pool_groups) (simp_all add: empty_state_def)
  then show "(k, g) \<in> set (paths_per_inode (fst (index_phase fs sched1 a))) \<Longrightarrow> g \<noteq> []"
    unfolding index_phase_fst by blast
qed

lemma scan_grown_any:
  "grown (discovered fs (skip_symlinks a) (absolute fs (originals_directory a))
            (sched2 (root_tasks fs (skip_directories a) (absolute fs (root_directory a)))))
     (paths_per_inode (fst (index_phase fs sched1 a)))
     (paths_per_inode (fst (scan fs sched1 sched2 a)))"
  unfolding scan_fst classify_phase_fst by (rule classify_pool_grown)

lemma scan_nonempty:
  assumes "g \<in> set (map snd (paths_per_inode (fst (scan fs sched1 sched2 a))))"
  shows "g \<noteq> []"
proof -
  from assms obtain k where "(k, g) \<in> set (paths_per_inode (fst (scan fs sched1 sched2 a)))"
    by auto
  from grown_entry[OF scan_grown_any this] obtain origs found where
    "(k, origs) \<in> set (paths_per_inode (fst (index_phase fs sched1 a)))" and "g = origs @ found"
    by blast
  then show ?thesis using index_phase_nonempty by fastforce
qed

lemma indexer_vanished:
  "fs_stat fs p = NotFound \<Longrightarrow> add_file_inode_to_map fs p st = (st, [Stat p], None)"
  by (simp add: add_file_inode_to_map_def)

lemma check_located_vanished:
  "fs_stat fs q = NotFound \<Longrightarrow>
   fst (check_located fs orig q st) = st \<and> snd (snd (check_located fs orig q st)) = None"
  by (simp add: check_located_def)

lemma classifier_vanished:
  assumes "fs_stat fs q = NotFound"
    and "(fs_is_symlink fs t = Ok False \<and> t = q) \<or>
         (fs_is_symlink fs t = Ok True \<and> \<not> skip \<and> fs_resolve fs t = Ok q)"
  shows "fst (check_if_file_is_hardlink fs skip orig t st) = st \<and>
         snd (snd (check_if_file_is_hardlink fs skip orig t st)) = None"
  using assms(2) check_located_vanished[OF assms(1), of orig st]
  by (auto simp: check_if_file_is_hardlink_def split: prod.splits)

section \<open>What the classifier submits and finds\<close>




lemma discovered_outside:
  "discovered fs skip orig tasks k q \<Longrightarrow> \<not> is_relative_to q orig"
  by (simp add: discovered_def)

lemma discovered_skip:
  "discovered fs True orig tasks k q \<Longrightarrow> fs_is_symlink fs q = Ok False \<and> q \<in> set tasks"
  by (auto simp: discovered_def)

lemma check_located_inside:
  "is_relative_to q orig \<Longrightarrow> check_located fs orig q st = (st, [], None)"
  by (simp add: check_located_def)

section \<open>The orders a pool can run two or three tasks in\<close>

lemma two_orders:
  assumes "mset ys = mset [a, b]"
  shows "ys = [a, b] \<or> ys = [b, a]"
proof -
  have "length ys = length [a, b]" using assms by (rule mset_eq_length)
  then obtain x y where ys: "ys = [x, y]"
    by (cases ys; cases "tl ys") auto
  show ?thesis using assms unfolding ys
    by (auto simp: add_eq_conv_ex)
qed

lemma three_orders:
  assumes "mset ys = mset [a, b, c]"
  shows "ys \<in> {[a, b, c], [a, c, b], [b, a, c], [b, c, a], [c, a, b], [c, b, a]}"
proof -
  have "length ys = length [a, b, c]" using assms by (rule mset_eq_length)
  then obtain x zs where ys: "ys = x # zs" by (cases ys) auto
  have "x \<in># mset [a, b, c]" using assms ys by (metis list.set_intros(1) set_mset_mset)
  then consider "x = a" | "x = b" | "x = c" by auto
  then show ?thesis
  proof cases
    case 1
    then have "mset zs = mset [b, c]" using assms ys by simp
    from two_orders[OF this] show ?thesis using 1 ys by auto
  next
    case 2
    then have "mset zs = mset [a, c]" using assms ys by (simp add: add_mset_commute)
    from two_orders[OF this] show ?thesis using 2 ys by auto
  next
    case 3
    then have "add_mset c (mset zs) = add_mset c (mset [a, b])" using assms ys
      by (simp add: add_mset_commute)
    then have "mset zs = mset [a, b]" by simp
    from two_orders[OF this] show ?thesis using 3 ys by auto
  qed
qed

lemma example_run_orders:
  assumes "sched1 [file_A, file_B] = [file_A, file_B] \<or> sched1 [file_A, file_B] = [file_B, file_A]"
    and "sched2 [file_A2, file_A3, file_C] \<in> {[file_A2, file_A3, file_C], [file_A2, file_C, file_A3], [file_A3, file_A2, file_C],
                [file_A3, file_C, file_A2], [file_C, file_A2, file_A3], [file_C, file_A3, file_A2]}"
    and "n = 1 \<or> n = 2" and "3 \<le> m"
  shows "mset (printed (find_hardlinks example_fs sched1 sched2 (example_args\<lparr>min_links := n\<rparr>))) =
           {#file_A2, file_A3#} \<and>
         printed (find_hardlinks example_fs sched1 sched2 (example_args\<lparr>min_links := m\<rparr>)) = [] \<and>
         (\<exists>rest. printed (find_hardlinks example_fs sched1 sched2
                     (example_args\<lparr>include_originals_in_output := True\<rparr>)) = file_A # rest \<and>
                  mset rest = {#file_A2, file_A3#})"
  using assms
  apply (elim disjE insertE emptyE)
  apply (simp_all add: run_defs fs_defs args_defs path_defs)
  done


section \<open>The claims about the emitter\<close>

text \<open>
  Claim C2. With \<open>min_links = n \<ge> 1\<close> and the groups as they are when the emitter runs
  (none is empty), the output is the concatenation of the groups' blocks, in the order of
  the groups, and the block of a group is non-empty exactly when the group has at least
  \<open>n\<close> entries beyond its first one, \<open>length g - 1 \<ge> n\<close>. A group below the threshold
  contributes no line.
\<close>

theorem emitter_threshold:
  assumes "1 \<le> n" and "\<forall>g \<in> set groups. g \<noteq> []"
  shows "emitter n include_originals groups =
           (concat (map (\<lambda>g. fst (emit_group n include_originals g)) groups), None) \<and>
         (\<forall>g \<in> set groups.
            (fst (emit_group n include_originals g) \<noteq> []) = (n \<le> int (length g) - 1))"
proof -
  have "(fst (emit_group n include_originals g) \<noteq> []) = (n \<le> int (length g) - 1)"
    if "g \<in> set groups" for g
  proof (cases g)
    case Nil
    then show ?thesis using that assms(2) by simp
  next
    case (Cons original_file rest)
    then show ?thesis using assms(1) by (auto simp: emit_group_Cons)
  qed
  then show ?thesis using emitter_blocks[OF assms(2)] by simp
qed

theorem emitter_threshold_witness:
  "(1::int) \<le> 1 \<and> [file_A, file_A2, file_A3] \<noteq> [] \<and> [file_B] \<noteq> [] \<and>
   emitter 1 False [[file_A, file_A2, file_A3], [file_B]] = ([file_A2, file_A3], None) \<and>
   fst (emit_group 1 False [file_A, file_A2, file_A3]) \<noteq> [] \<and>
   fst (emit_group 1 False [file_B]) = []"
  using emitter_threshold[of 1 "[[file_A, file_A2, file_A3], [file_B]]" False]
  by (simp add: emit_group_Cons)

text \<open>
  Claim C9. For a group that meets the threshold, with \<open>include_originals_in_output\<close>
  the block is the first path of the group followed by the remaining paths in their stored
  order; without it the block is the remaining paths only.
\<close>

theorem emit_group_block:
  assumes "n \<le> int (length (original_file # rest)) - 1"
  shows "emit_group n True (original_file # rest) = (original_file # rest, None) \<and>
         emit_group n False (original_file # rest) = (rest, None)"
  using assms by (simp add: emit_group_Cons)

theorem emit_group_block_witness:
  "(2::int) \<le> int (length [file_A, file_A2, file_A3]) - 1 \<and>
   emit_group 2 True [file_A, file_A2, file_A3] = ([file_A, file_A2, file_A3], None) \<and>
   emit_group 2 False [file_A, file_A2, file_A3] = ([file_A2, file_A3], None)"
  using emit_group_block[of 2 file_A "[file_A2, file_A3]"]
  by simp

section \<open>The claims about validation, races and empty groups\<close>

text \<open>
  Claim C5. With \<open>min_links < 1\<close> the command ends with \<^verbatim>\<open>ValueError\<close>, has printed
  nothing and has made no file-system call at all: no open of the output file, no walk, no
  stat. With \<open>min_links \<ge> 1\<close> it does not end with \<^verbatim>\<open>ValueError\<close>.
\<close>

theorem min_links_validation:
  "(min_links a < 1 \<longrightarrow>
      find_hardlinks fs sched1 sched2 a =
        \<lparr>raised = Some ValueError, printed = [], accesses = []\<rparr>) \<and>
   (1 \<le> min_links a \<longrightarrow> raised (find_hardlinks fs sched1 sched2 a) \<noteq> Some ValueError)"
proof -
  have "raised (find_hardlinks fs sched1 sched2 a) \<noteq> Some ValueError" if "1 \<le> min_links a"
    using that open_output_exn[of fs a]
      emitter_exn[of "min_links a" "include_originals_in_output a"
        "map snd (paths_per_inode (fst (scan fs sched1 sched2 a)))"]
    by (auto simp: find_hardlinks_raised)
  then show ?thesis by (simp add: find_hardlinks_def)
qed

theorem min_links_validation_witness:
  "min_links (example_args\<lparr>min_links := 0, to_file := Some file_C, append_to_file := False\<rparr>) < 1 \<and>
   find_hardlinks example_fs id id
       (example_args\<lparr>min_links := 0, to_file := Some file_C, append_to_file := False\<rparr>) =
     \<lparr>raised = Some ValueError, printed = [], accesses = []\<rparr> \<and>
   1 \<le> min_links (example_args\<lparr>to_file := Some file_C, append_to_file := False\<rparr>) \<and>
   raised (find_hardlinks example_fs id id
       (example_args\<lparr>to_file := Some file_C, append_to_file := False\<rparr>)) \<noteq> Some ValueError \<and>
   hd (accesses (find_hardlinks example_fs id id
       (example_args\<lparr>to_file := Some file_C, append_to_file := False\<rparr>))) = Open file_C Truncate"
  using
    min_links_validation[of
      "example_args\<lparr>min_links := 0, to_file := Some file_C, append_to_file := False\<rparr>"
      example_fs id id]
    min_links_validation[of
      "example_args\<lparr>to_file := Some file_C, append_to_file := False\<rparr>" example_fs id id]
  by (simp add: run_defs fs_defs args_defs path_defs)

text \<open>
  Claim C6. A file whose stat raises \<^verbatim>\<open>FileNotFoundError\<close> leaves both dictionaries as they
  were and no exception leaves the worker, in the indexer (file \<open>p\<close>) and in the classifier
  (task \<open>t\<close>, which stats \<open>q\<close>: itself, or its resolved target when it is a symlink that is
  followed). The other files are not affected: a pool that runs the task among others ends
  with the dictionaries it ends with when the task is left out.
\<close>

theorem vanished_file_is_skipped:
  assumes "fs_stat fs p = NotFound" and "fs_stat fs q = NotFound"
    and "(fs_is_symlink fs t = Ok False \<and> t = q) \<or>
         (fs_is_symlink fs t = Ok True \<and> \<not> skip \<and> fs_resolve fs t = Ok q)"
  shows "add_file_inode_to_map fs p st = (st, [Stat p], None) \<and>
         fst (run_pool (add_file_inode_to_map fs) (before @ p # after) st) =
           fst (run_pool (add_file_inode_to_map fs) (before @ after) st) \<and>
         fst (check_if_file_is_hardlink fs skip orig t st) = st \<and>
         snd (snd (check_if_file_is_hardlink fs skip orig t st)) = None \<and>
         fst (run_pool (check_if_file_is_hardlink fs skip orig) (before @ t # after) st) =
           fst (run_pool (check_if_file_is_hardlink fs skip orig) (before @ after) st)"
proof -
  have 1: "fst (run_pool (add_file_inode_to_map fs) (before @ p # after) st) =
           fst (run_pool (add_file_inode_to_map fs) (before @ after) st)"
    by (rule run_pool_drop_task) (simp add: indexer_vanished[OF assms(1)])
  have 2: "fst (run_pool (check_if_file_is_hardlink fs skip orig) (before @ t # after) st) =
           fst (run_pool (check_if_file_is_hardlink fs skip orig) (before @ after) st)"
    by (rule run_pool_drop_task) (simp add: classifier_vanished[OF assms(2,3)])
  show ?thesis
    using 1 2 indexer_vanished[OF assms(1)] classifier_vanished[OF assms(2,3)] by simp
qed

theorem vanished_file_is_skipped_witness:
  "fs_stat vanished_fs file_B = NotFound \<and> fs_stat vanished_fs file_C = NotFound \<and>
   fs_is_symlink vanished_fs file_C = Ok False \<and>
   add_file_inode_to_map vanished_fs file_B empty_state = (empty_state, [Stat file_B], None) \<and>
   fst (run_pool (add_file_inode_to_map vanished_fs) ([file_A2] @ file_B # [file_A3]) empty_state) =
     fst (run_pool (add_file_inode_to_map vanished_fs) ([file_A2] @ [file_A3]) empty_state) \<and>
   fst (check_if_file_is_hardlink vanished_fs True dir_o file_C empty_state) = empty_state \<and>
   snd (snd (check_if_file_is_hardlink vanished_fs True dir_o file_C empty_state)) = None \<and>
   fst (run_pool (check_if_file_is_hardlink vanished_fs True dir_o)
          ([file_A2] @ file_C # [file_A3]) empty_state) =
     fst (run_pool (check_if_file_is_hardlink vanished_fs True dir_o)
          ([file_A2] @ [file_A3]) empty_state) \<and>
   paths_per_inode (fst (scan vanished_fs id id example_args)) =
     [(100, [file_A, file_A2, file_A3])]"
proof -
  have 1: "fs_stat vanished_fs file_B = NotFound"
    by (simp add: fs_defs path_defs)
  have 2: "fs_stat vanished_fs file_C = NotFound"
    by (simp add: fs_defs path_defs)
  have 3: "fs_is_symlink vanished_fs file_C = Ok False"
    by (simp add: fs_defs path_defs)
  have 4: "(fs_is_symlink vanished_fs file_C = Ok False \<and> file_C = file_C) \<or>
     (fs_is_symlink vanished_fs file_C = Ok True \<and> \<not> True \<and>
      fs_resolve vanished_fs file_C = Ok file_C)"
    using 3 by simp
  have 5: "paths_per_inode (fst (scan vanished_fs id id example_args)) =
     [(100, [file_A, file_A2, file_A3])]"
    by (simp add: run_defs fs_defs args_defs path_defs)
  show ?thesis
    using 1 2 3 5
      vanished_file_is_skipped[OF 1 2 4, of empty_state "[file_A2]" "[file_A3]" dir_o]
    by blast
qed

text \<open>
  Claim C10. When the emitter runs no group is empty, for every file system, every order of
  the tasks and every option: the classifier adds no key (the keys after the scan are the
  keys the indexer created, each together with its first path), so the emitter's
  \<^verbatim>\<open>paths[0]\<close> never raises \<^verbatim>\<open>IndexError\<close>.
\<close>

theorem groups_never_empty:
  "(\<forall>g \<in> set (map snd (paths_per_inode (fst (scan fs sched1 sched2 a)))). g \<noteq> []) \<and>
   map fst (paths_per_inode (fst (scan fs sched1 sched2 a))) =
     map fst (paths_per_inode (fst (index_phase fs sched1 a))) \<and>
   raised (find_hardlinks fs sched1 sched2 a) \<noteq> Some IndexError"
proof -
  have 1: "\<forall>g \<in> set (map snd (paths_per_inode (fst (scan fs sched1 sched2 a)))). g \<noteq> []"
    using scan_nonempty by blast
  have 2: "map fst (paths_per_inode (fst (scan fs sched1 sched2 a))) =
     map fst (paths_per_inode (fst (index_phase fs sched1 a)))"
    by (rule grown_keys[OF scan_grown_any])
  have "snd (emitter (min_links a) (include_originals_in_output a)
          (map snd (paths_per_inode (fst (scan fs sched1 sched2 a))))) = None"
    by (simp only: emitter_blocks[OF 1] snd_conv)
  then have 3: "raised (find_hardlinks fs sched1 sched2 a) \<noteq> Some IndexError"
    using open_output_exn[of fs a] by (auto simp: find_hardlinks_raised)
  from 1 2 3 show ?thesis by blast
qed

theorem groups_never_empty_witness:
  "map snd (paths_per_inode (fst (scan vanished_fs id id example_args))) =
     [[file_A, file_A2, file_A3]] \<and>
   map fst (paths_per_inode (fst (index_phase vanished_fs id example_args))) = [100] \<and>
   raised (find_hardlinks vanished_fs id id example_args) \<noteq> Some IndexError"
  using groups_never_empty[of vanished_fs id id example_args]
  by (simp add: run_defs fs_defs args_defs path_defs)

section \<open>The end-to-end example\<close>

text \<open>
  Claim C1, as amended. On the example trees, whatever the order in which the pools run
  their tasks: with \<open>min_links = 1\<close> the output is \<^verbatim>\<open>A2\<close> and \<^verbatim>\<open>A3\<close>, each once, in
  some order, and nothing for \<^verbatim>\<open>B\<close> or \<^verbatim>\<open>C\<close>; with \<open>min_links = 2\<close> the output is the
  same, since \<^verbatim>\<open>A\<close> has two links beyond itself; it is empty for every \<open>min_links \<ge> 3\<close>; with
  \<open>include_originals_in_output\<close> the output is \<^verbatim>\<open>A\<close> first, then \<^verbatim>\<open>A2\<close> and \<^verbatim>\<open>A3\<close>.
\<close>

theorem example_run:
  assumes "runs_all sched1" and "runs_all sched2"
  shows "mset (printed (find_hardlinks example_fs sched1 sched2 example_args)) =
           {#file_A2, file_A3#} \<and>
         mset (printed (find_hardlinks example_fs sched1 sched2 (example_args\<lparr>min_links := 2\<rparr>))) =
           {#file_A2, file_A3#} \<and>
         (\<forall>m. 3 \<le> m \<longrightarrow>
            printed (find_hardlinks example_fs sched1 sched2 (example_args\<lparr>min_links := m\<rparr>)) = []) \<and>
         (\<exists>rest. printed (find_hardlinks example_fs sched1 sched2
                     (example_args\<lparr>include_originals_in_output := True\<rparr>)) = file_A # rest \<and>
                  mset rest = {#file_A2, file_A3#})"
proof -
  have 1: "sched1 [file_A, file_B] = [file_A, file_B] \<or> sched1 [file_A, file_B] = [file_B, file_A]"
    using assms(1) by (intro two_orders) (simp add: runs_all_def)
  have 2: "sched2 [file_A2, file_A3, file_C] \<in>
      {[file_A2, file_A3, file_C], [file_A2, file_C, file_A3], [file_A3, file_A2, file_C],
       [file_A3, file_C, file_A2], [file_C, file_A2, file_A3], [file_C, file_A3, file_A2]}"
    using assms(2) by (intro three_orders) (simp add: runs_all_def)
  have e: "example_args\<lparr>min_links := 1\<rparr> = example_args"
    by (simp add: args_defs)
  have 3: "mset (printed (find_hardlinks example_fs sched1 sched2 example_args)) =
        {#file_A2, file_A3#} \<and>
      (\<exists>rest. printed (find_hardlinks example_fs sched1 sched2
                  (example_args\<lparr>include_originals_in_output := True\<rparr>)) = file_A # rest \<and>
               mset rest = {#file_A2, file_A3#})"
    using example_run_orders[of sched1 sched2 1 3, OF 1 2] by (simp add: e)
  have 4: "mset (printed (find_hardlinks example_fs sched1 sched2
        (example_args\<lparr>min_links := 2\<rparr>))) = {#file_A2, file_A3#}"
    using example_run_orders[of sched1 sched2 2 3, OF 1 2] by simp
  have 5: "printed (find_hardlinks example_fs sched1 sched2 (example_args\<lparr>min_links := m\<rparr>)) = []"
    if "3 \<le> m" for m
    using example_run_orders[of sched1 sched2 1 m, OF 1 2] that by simp
  from 3 4 5 show ?thesis by blast
qed

theorem example_run_witness:
  "runs_all id \<and> runs_all rev \<and>
   printed (find_hardlinks example_fs id rev example_args) = [file_A3, file_A2] \<and>
   printed (find_hardlinks example_fs id rev (example_args\<lparr>min_links := 2\<rparr>)) = [file_A3, file_A2] \<and>
   printed (find_hardlinks example_fs id rev (example_args\<lparr>min_links := 3\<rparr>)) = [] \<and>
   printed (find_hardlinks example_fs id rev (example_args\<lparr>include_originals_in_output := True\<rparr>)) =
     [file_A, file_A3, file_A2]"
proof -
  have 1: "runs_all id" by (simp add: runs_all_def)
  have 2: "runs_all rev" by (simp add: runs_all_def)
  show ?thesis
    using 1 2 example_run[OF 1 2]
    by (simp add: run_defs fs_defs args_defs path_defs)
qed

text \<open>
  The claim as stated fails: with \<open>min_links = 2\<close> the output of the example is not empty.
\<close>

theorem min_links_two_counterexample:
  "printed (find_hardlinks example_fs id id (example_args\<lparr>min_links := 2\<rparr>)) \<noteq> [] \<and>
   printed (find_hardlinks example_fs id id (example_args\<lparr>min_links := 2\<rparr>)) =
     [file_A2, file_A3]"
  by (simp add: run_defs fs_defs args_defs path_defs)

section \<open>The claims about what the groups hold\<close>




text \<open>
  What line 35 does exclude: a path that has the originals directory path, as line 83
  computed it, as a lexical prefix. For such a path the classifier returns before the stat,
  so no such path is among those the classifier appends, and one is printed only when the
  indexer recorded it.
\<close>

lemma classifier_ignores_lexical_originals:
  assumes "runs_all sched1" and "runs_all sched2"
  shows "(is_relative_to q orig \<and>
            ((fs_is_symlink fs t = Ok False \<and> q = t) \<or>
             (fs_is_symlink fs t = Ok True \<and> \<not> skip \<and> fs_resolve fs t = Ok q)) \<longrightarrow>
          check_if_file_is_hardlink fs skip orig t st =
            (st, IsSymlink t # (if fs_is_symlink fs t = Ok True then [Resolve t] else []), None)) \<and>
         (\<forall>(k, g) \<in> set (paths_per_inode (fst (scan fs sched1 sched2 a))).
            \<exists>origs found.
              g = origs @ found \<and>
              (k, origs) \<in> set (paths_per_inode (fst (index_phase fs sched1 a))) \<and>
              (\<forall>x \<in> set found. \<not> is_relative_to x (absolute fs (originals_directory a)))) \<and>
         (\<forall>l \<in> set (printed (find_hardlinks fs sched1 sched2 a)).
            is_relative_to l (absolute fs (originals_directory a)) \<longrightarrow>
            l \<in> set (originals_tasks fs (absolute fs (originals_directory a))))"
proof -
  have groups: "\<exists>origs found.
      g = origs @ found \<and>
      (k, origs) \<in> set (paths_per_inode (fst (index_phase fs sched1 a))) \<and>
      (\<forall>p \<in> set origs. p \<in> set (originals_tasks fs (absolute fs (originals_directory a)))) \<and>
      (\<forall>x \<in> set found. \<not> is_relative_to x (absolute fs (originals_directory a)))"
    if "(k, g) \<in> set (paths_per_inode (fst (scan fs sched1 sched2 a)))" for k g
    using scan_groups[OF assms that] discovered_outside by blast
  have 1: "is_relative_to q orig \<and>
            ((fs_is_symlink fs t = Ok False \<and> q = t) \<or>
             (fs_is_symlink fs t = Ok True \<and> \<not> skip \<and> fs_resolve fs t = Ok q)) \<longrightarrow>
          check_if_file_is_hardlink fs skip orig t st =
            (st, IsSymlink t # (if fs_is_symlink fs t = Ok True then [Resolve t] else []), None)"
    by (auto simp: check_if_file_is_hardlink_def check_located_inside)
  have 2: "\<forall>(k, g) \<in> set (paths_per_inode (fst (scan fs sched1 sched2 a))).
            \<exists>origs found.
              g = origs @ found \<and>
              (k, origs) \<in> set (paths_per_inode (fst (index_phase fs sched1 a))) \<and>
              (\<forall>x \<in> set found. \<not> is_relative_to x (absolute fs (originals_directory a)))"
    using groups by blast
  have 3: "l \<in> set (originals_tasks fs (absolute fs (originals_directory a)))"
    if "l \<in> set (printed (find_hardlinks fs sched1 sched2 a))"
      and "is_relative_to l (absolute fs (originals_directory a))" for l
  proof -
    from printed_in_group[OF that(1)] obtain k g where
      "(k, g) \<in> set (paths_per_inode (fst (scan fs sched1 sched2 a)))" and "l \<in> set g"
      by blast
    with groups[of k g] that(2) show ?thesis by auto
  qed
  from 1 2 3 show ?thesis by blast
qed


text \<open>
  Claim C4. The code breaks it. Line 83 keeps the originals directory as it was typed
  (\<^verbatim>\<open>absolute()\<close> does not normalise), line 34 replaces a followed symlink by its resolved,
  normalised target, and line 35 compares the two lexically. With the originals directory
  given as \<^verbatim>\<open>/data/work/../o\<close>, the file \<^verbatim>\<open>/data/o/A\<close> inside it, reached through the symlink
  \<^verbatim>\<open>/r/L\<close>, is not recognised as lying inside the originals directory: the classifier
  appends it to the group of its own inode and it is printed as a hardlink of itself. The
  same happens with the default options when the root \<^verbatim>\<open>/data\<close> contains the originals
  directory and the walk reaches the file as \<^verbatim>\<open>/data/o/A\<close>.
\<close>

theorem unnormalised_originals_run:
  "absolute dots_fs (originals_directory dots_args) = dir_dots_o \<and>
   originals_tasks dots_fs dir_dots_o = [file_dots_A] \<and>
   fs_stat dots_fs file_dots_A = Ok 100 \<and> fs_stat dots_fs file_data_A = Ok 100 \<and>
   fs_is_symlink dots_fs link_L = Ok True \<and> fs_resolve dots_fs link_L = Ok file_data_A \<and>
   is_relative_to file_data_A dir_data_o \<and> is_relative_to file_data_A dir_dots_o = False \<and>
   paths_per_inode (fst (scan dots_fs id id dots_args)) = [(100, [file_dots_A, file_data_A])] \<and>
   printed (find_hardlinks dots_fs id id dots_args) = [file_data_A] \<and>
   root_tasks dots_fs (skip_directories dots_default_args)
     (absolute dots_fs (root_directory dots_default_args)) = [file_data_A] \<and>
   paths_per_inode (fst (scan dots_fs id id dots_default_args)) =
     [(100, [file_dots_A, file_data_A])] \<and>
   printed (find_hardlinks dots_fs id id dots_default_args) = [file_data_A]"
  by (simp add: run_defs fs_defs args_defs path_defs)

text \<open>
  Claim C7, as amended. For a symlink \<open>t\<close> with \<open>skip_symlinks\<close> set, the classifier
  returns after the symlink test, with the dictionaries unchanged and no further
  file-system call, so the classifier never appends the path of \<open>t\<close> to a group. The path
  is in a group or in the output only when the indexer recorded it: when it is also a file
  of the originals tree, where symlinks are not skipped.
\<close>

theorem skipped_symlink_only_as_original:
  assumes "runs_all sched1" and "runs_all sched2"
    and "fs_is_symlink fs t = Ok True" and "skip_symlinks a"
  shows "check_if_file_is_hardlink fs (skip_symlinks a) orig t st = (st, [IsSymlink t], None) \<and>
         (\<forall>(k, g) \<in> set (paths_per_inode (fst (scan fs sched1 sched2 a))).
            \<exists>origs found.
              g = origs @ found \<and>
              (k, origs) \<in> set (paths_per_inode (fst (index_phase fs sched1 a))) \<and>
              t \<notin> set found) \<and>
         (t \<in> set (printed (find_hardlinks fs sched1 sched2 a)) \<longrightarrow>
            t \<in> set (originals_tasks fs (absolute fs (originals_directory a))))"
proof -
  have groups: "\<exists>origs found.
      g = origs @ found \<and>
      (k, origs) \<in> set (paths_per_inode (fst (index_phase fs sched1 a))) \<and>
      (\<forall>p \<in> set origs. p \<in> set (originals_tasks fs (absolute fs (originals_directory a)))) \<and>
      t \<notin> set found"
    if "(k, g) \<in> set (paths_per_inode (fst (scan fs sched1 sched2 a)))" for k g
  proof -
    from scan_groups[OF assms(1,2) that] obtain origs found where
      1: "g = origs @ found"
         "(k, origs) \<in> set (paths_per_inode (fst (index_phase fs sched1 a)))"
         "\<forall>p \<in> set origs. p \<in> set (originals_tasks fs (absolute fs (originals_directory a)))" and
      2: "\<forall>q \<in> set found.
            discovered fs (skip_symlinks a) (absolute fs (originals_directory a))
              (root_tasks fs (skip_directories a) (absolute fs (root_directory a))) k q"
      by blast
    have "t \<notin> set found"
    proof
      assume "t \<in> set found"
      with 2 assms(4) have "fs_is_symlink fs t = Ok False"
        using discovered_skip by auto
      with assms(3) show False by simp
    qed
    with 1 show ?thesis by blast
  qed
  have 1: "check_if_file_is_hardlink fs (skip_symlinks a) orig t st = (st, [IsSymlink t], None)"
    using assms(3,4) by (simp add: check_if_file_is_hardlink_def)
  have 2: "\<forall>(k, g) \<in> set (paths_per_inode (fst (scan fs sched1 sched2 a))).
            \<exists>origs found.
              g = origs @ found \<and>
              (k, origs) \<in> set (paths_per_inode (fst (index_phase fs sched1 a))) \<and>
              t \<notin> set found"
    using groups by blast
  have 3: "t \<in> set (originals_tasks fs (absolute fs (originals_directory a)))"
    if "t \<in> set (printed (find_hardlinks fs sched1 sched2 a))"
  proof -
    from printed_in_group[OF that] obtain k g where
      "(k, g) \<in> set (paths_per_inode (fst (scan fs sched1 sched2 a)))" and "t \<in> set g"
      by blast
    with groups[of k g] show ?thesis by auto
  qed
  from 1 2 3 show ?thesis by blast
qed

theorem skipped_symlink_only_as_original_witness:
  "runs_all id \<and> fs_is_symlink nested_fs link_roS = Ok True \<and> skip_symlinks nested_args \<and>
   check_if_file_is_hardlink nested_fs (skip_symlinks nested_args) dir_ro link_roS empty_state =
     (empty_state, [IsSymlink link_roS], None) \<and>
   paths_per_inode (fst (scan nested_fs id id nested_args)) = [(100, [file_roA, link_roS])] \<and>
   paths_per_inode (fst (index_phase nested_fs id nested_args)) = [(100, [file_roA, link_roS])] \<and>
   link_roS \<in> set (printed (find_hardlinks nested_fs id id nested_args)) \<and>
   link_roS \<in> set (originals_tasks nested_fs (absolute nested_fs (originals_directory nested_args)))"
proof -
  have 1: "runs_all id" by (simp add: runs_all_def)
  have 2: "fs_is_symlink nested_fs link_roS = Ok True"
    by (simp add: fs_defs path_defs)
  have 3: "skip_symlinks nested_args"
    by (simp add: args_defs)
  have 4: "paths_per_inode (fst (scan nested_fs id id nested_args)) = [(100, [file_roA, link_roS])] \<and>
      paths_per_inode (fst (index_phase nested_fs id nested_args)) = [(100, [file_roA, link_roS])] \<and>
      link_roS \<in> set (printed (find_hardlinks nested_fs id id nested_args))"
    by (simp add: run_defs fs_defs args_defs path_defs)
  show ?thesis
    using 1 2 3 4 skipped_symlink_only_as_original[OF 1 1 2 3, of dir_ro empty_state]
    by blast
qed

text \<open>
  The claim as stated fails: with the originals directory inside the root tree, a symlink
  in it is a symlink of the root tree, symlinks are skipped, and its path is printed.
\<close>

theorem skipped_symlink_printed_counterexample:
  "fs_is_symlink nested_fs link_roS = Ok True \<and> skip_symlinks nested_args \<and>
   link_roS \<in> set (root_tasks nested_fs (skip_directories nested_args)
                     (absolute nested_fs (root_directory nested_args))) \<and>
   paths_per_inode (fst (scan nested_fs id id nested_args)) = [(100, [file_roA, link_roS])] \<and>
   printed (find_hardlinks nested_fs id id nested_args) = [link_roS]"
  by (simp add: run_defs fs_defs args_defs path_defs)





text \<open>
  Line 82 makes the root absolute and line 98 compares the walked directories with the
  skip-directories as they were given: a skip-directory given as a relative path matches no
  walked directory, and the files under it are submitted and printed.
\<close>

lemma relative_skip_directory_run:
  "absolute skipdir_fs (Path False [''r'', ''skip'']) = dir_skip \<and>
   is_relative_to dir_skip (Path False [''r'', ''skip'']) = False \<and>
   root_tasks skipdir_fs (skip_directories relative_skip_args)
     (absolute skipdir_fs (root_directory relative_skip_args)) = [link_L, file_skipF] \<and>
   printed (find_hardlinks skipdir_fs id id relative_skip_args) = [file_skipF]"
  by (simp add: run_defs fs_defs args_defs path_defs)

end
